theory Spec2Isabelle
  imports Main
begin

section \<open>Redux as a supervisor of state machines: the data model of App.tsx\<close>

text \<open>
  The development follows \<^verbatim>\<open>src/src/App.tsx\<close>. A \<^emph>\<open>station\<close> is a machine attached to
  the event bus, the \<^emph>\<open>registry\<close> (\<^verbatim>\<open>Stations\<close>) is the state of the Redux store, and
  \<^verbatim>\<open>stationsReducer\<close> is the store's reducer (the router).

  An event is a JavaScript object. The reducer tells its three kinds apart by the
  \<^verbatim>\<open>type\<close> property alone, so the model keeps one shape for all of them: the
  \<^verbatim>\<open>type\<close>, the optional \<^verbatim>\<open>to\<close> (absent, one identity or an array of identities),
  the optional \<^verbatim>\<open>events\<close> (read when the type is \<^verbatim>\<open>BATCHED\<close>), the optional
  \<^verbatim>\<open>payload\<close> (read when the type is \<^verbatim>\<open>REGISTER_MACHINE\<close>) and the remaining
  properties, which the reducer only copies.
\<close>

type_synonym sref = nat

datatype target = One string | Many "string list"

record 's machine =
  machine_id :: string
  initialState :: 's

datatype 's event =
  Event (etype: string) (to: "target option") (props: "(string \<times> string) list")
        (events: "'s event list option") (payload: "'s station option")
and 's station =
  Station (station_id: string) (machine: "'s machine") (service: "sref option")
          (eventQueue: "'s event list") (state: 's)

text \<open>
  The interpreter (\<^verbatim>\<open>X.Interpreter\<close>) is an object of the xstate library with a
  current state, which \<^verbatim>\<open>send\<close> advances in place. A station holds a reference to
  it, so interpreters live in a heap and every function that can reach \<^verbatim>\<open>send\<close>
  takes the heap and returns it. A state of the library (\<^verbatim>\<open>X.State\<close>) is the type
  parameter \<open>'s\<close>; the \<^verbatim>\<open>changed\<close> property, which the code reads only on the value
  that \<^verbatim>\<open>send\<close> returns, is returned beside that value. The library itself is not
  part of the repository: its transition function is the parameter \<open>X\<close> of every
  function below.
\<close>

record 's interpreter =
  imachine :: "'s machine"
  istate :: 's

type_synonym 's heap = "sref \<Rightarrow> 's interpreter"

type_synonym 's stations = "string \<rightharpoonup> 's station"

type_synonym 's xstate = "'s machine \<Rightarrow> 's \<Rightarrow> 's event \<Rightarrow> 's \<times> bool"

datatype error = TypeError

subsection \<open>Reading a property of the registry\<close>

text \<open>
  The registry is an ordinary object, made by \<^verbatim>\<open>{}\<close> and by object spread, so
  \<^verbatim>\<open>state[k]\<close> finds the entry registered under \<open>k\<close>, or else the member of
  \<^verbatim>\<open>Object.prototype\<close> of that name, or else \<^verbatim>\<open>undefined\<close>. The members of
  \<^verbatim>\<open>Object.prototype\<close> are functions (and, for \<^verbatim>\<open>__proto__\<close>, the prototype object):
  truthy values with no \<^verbatim>\<open>service\<close> and no \<^verbatim>\<open>eventQueue\<close>.
\<close>

datatype 'a property = Own 'a | Inherited | Undefined

definition object_prototype_keys :: "string list" where
  "object_prototype_keys =
     [''constructor'', ''hasOwnProperty'', ''isPrototypeOf'', ''propertyIsEnumerable'',
      ''toLocaleString'', ''toString'', ''valueOf'', ''__proto__'',
      ''__defineGetter__'', ''__defineSetter__'', ''__lookupGetter__'', ''__lookupSetter__'']"

definition get_property :: "(string \<rightharpoonup> 'a) \<Rightarrow> string \<Rightarrow> 'a property" where
  "get_property obj k =
     (case obj k of
        Some v \<Rightarrow> Own v
      | None \<Rightarrow> if k \<in> set object_prototype_keys then Inherited else Undefined)"

subsection \<open>The reducers\<close>

definition isBatchedEvent :: "'s event \<Rightarrow> bool" where
  "isBatchedEvent event \<longleftrightarrow> etype event = ''BATCHED''"

definition isRegisterEvent :: "'s event \<Rightarrow> bool" where
  "isRegisterEvent event \<longleftrightarrow> etype event = ''REGISTER_MACHINE''"

text \<open>
  \<^verbatim>\<open>service.send(event)\<close>: the interpreter takes the transition of its machine from
  its current state, keeps the new state as its current one and returns it.
\<close>

definition interpreter_send :: "'s xstate \<Rightarrow> 's interpreter \<Rightarrow> 's event \<Rightarrow> 's interpreter \<times> 's \<times> bool" where
  "interpreter_send X i event =
     (let (next, changed) = X (imachine i) (istate i) event
      in (i\<lparr>istate := next\<rparr>, next, changed))"

definition send :: "'s xstate \<Rightarrow> 's heap \<Rightarrow> sref \<Rightarrow> 's event \<Rightarrow> 's heap \<times> 's \<times> bool" where
  "send X h r event =
     (let (i, next, changed) = interpreter_send X (h r) event
      in (h(r := i), next, changed))"

text \<open>
  A station is an object, and \<^verbatim>\<open>stationReducer\<close> returns a reference: either the
  very object it was given (\<^verbatim>\<open>return state\<close>, line 99) or a new object that an
  object literal builds (lines 93 to 96 and 102 to 105). The result says which, so
  that returning the given object and returning an equal copy of it are different
  results; \<open>returned_station\<close> is the object the reference then stands for.
\<close>

datatype 's returned = SameObject | NewObject "'s station"

fun returned_station :: "'s station \<Rightarrow> 's returned \<Rightarrow> 's station" where
  "returned_station st SameObject = st"
| "returned_station st (NewObject st') = st'"

text \<open>\<^verbatim>\<open>stationReducer\<close>, lines 86 to 107.\<close>

definition stationReducer :: "'s xstate \<Rightarrow> 's heap \<Rightarrow> 's station \<Rightarrow> 's event \<Rightarrow> 's heap \<times> 's returned" where
  "stationReducer X h st event =
     (case service st of
        Some r \<Rightarrow>
          (let (h', next, changed) = send X h r event
           in if changed
              then (h', NewObject (Station (station_id st) (machine st) (service st) (eventQueue st) next))
              else (h', SameObject))
      | None \<Rightarrow>
          (h, NewObject (Station (station_id st) (machine st) (service st) (eventQueue st @ [event]) (state st))))"

text \<open>The copy \<^verbatim>\<open>{...event, to: id}\<close> of line 139.\<close>

definition with_to :: "'s event \<Rightarrow> string \<Rightarrow> 's event" where
  "with_to event i = Event (etype event) (Some (One i)) (props event) (events event) (payload event)"

text \<open>
  Lines 148 to 157 of \<^verbatim>\<open>stationsReducer\<close>, for the property key \<open>k\<close> that
  \<^verbatim>\<open>event.to\<close> stands for. When \<^verbatim>\<open>state[k]\<close> is a member of \<^verbatim>\<open>Object.prototype\<close>, it
  is truthy, \<^verbatim>\<open>stationReducer\<close> finds no \<^verbatim>\<open>service\<close> on it, and the spread of its
  missing \<^verbatim>\<open>eventQueue\<close> throws a TypeError.
\<close>

definition deliver :: "'s xstate \<Rightarrow> 's heap \<times> 's stations \<Rightarrow> string \<Rightarrow> 's event \<Rightarrow> error + 's heap \<times> 's stations" where
  "deliver X w k event =
     (case get_property (snd w) k of
        Own station \<Rightarrow>
          (let (h', station') = stationReducer X (fst w) station event
           in Inr (h', (snd w)(k \<mapsto> returned_station station station')))
      | Inherited \<Rightarrow> Inl TypeError
      | Undefined \<Rightarrow> Inr w)"

text \<open>
  The measure of the recursion of \<^verbatim>\<open>stationsReducer\<close>: a batch is larger than its
  members, and an event with a list of targets is larger than the batch of its copies.
\<close>

fun weight :: "'s event \<Rightarrow> nat" where
  "weight (Event t tg ps evs p) =
     (if t = ''BATCHED'' then (case evs of None \<Rightarrow> 0 | Some es \<Rightarrow> Suc (sum_list (map weight es)))
      else if t = ''REGISTER_MACHINE'' then 0
      else (case tg of Some (Many ids) \<Rightarrow> Suc (Suc (length ids)) | _ \<Rightarrow> 0))"

text \<open>
  \<^verbatim>\<open>stationsReducer\<close>, lines 124 to 158 (the default \<^verbatim>\<open>{}\<close> of its first parameter
  is the empty registry the store starts with). An exception thrown inside the callback of
  \<^verbatim>\<open>reduce\<close> ends the whole call: once the accumulator is an error it stays one.
  Reading \<^verbatim>\<open>events\<close> of a batch or \<^verbatim>\<open>payload\<close> of a registration that has none throws
  a TypeError. An absent \<^verbatim>\<open>to\<close> is the property key \<^verbatim>\<open>"undefined"\<close>.
\<close>

function stationsReducer :: "'s xstate \<Rightarrow> 's heap \<times> 's stations \<Rightarrow> 's event \<Rightarrow> error + 's heap \<times> 's stations" where
  "stationsReducer X (h, stations) event =
     (if isBatchedEvent event then
        (case events event of
           None \<Rightarrow> Inl TypeError
         | Some es \<Rightarrow>
             foldl (\<lambda>acc next. case acc of Inl err \<Rightarrow> Inl err | Inr w \<Rightarrow> stationsReducer X w next)
                   (Inr (h, stations)) es)
      else if isRegisterEvent event then
        (case payload event of
           None \<Rightarrow> Inl TypeError
         | Some p \<Rightarrow> Inr (h, stations(station_id p \<mapsto> p)))
      else
        (case to event of
           Some (Many ids) \<Rightarrow>
             stationsReducer X (h, stations) (Event ''BATCHED'' None [] (Some (map (with_to event) ids)) None)
         | Some (One k) \<Rightarrow> deliver X (h, stations) k event
         | None \<Rightarrow> deliver X (h, stations) ''undefined'' event))"
  by pat_completeness auto
termination
proof (relation "measure (\<lambda>(X, w, e). weight e)")
  show "wf (measure (\<lambda>(X :: 's xstate, w :: 's heap \<times> 's stations, e :: 's event). weight e))"
    by simp
next
  fix X :: "'s xstate" and w w' :: "'s heap \<times> 's stations" and event x :: "'s event" and es
  assume b: "isBatchedEvent event" and es: "events event = Some es" and x: "x \<in> set es"
  from x have "weight x \<le> sum_list (map weight es)"
    by (simp add: member_le_sum_list)
  with b es show "((X, w', x), (X, w, event)) \<in> measure (\<lambda>(X, w, e). weight e)"
    by (cases event) (simp add: isBatchedEvent_def)
next
  fix X :: "'s xstate" and w :: "'s heap \<times> 's stations" and event :: "'s event" and tg ids
  assume "\<not> isBatchedEvent event" "\<not> isRegisterEvent event"
    "to event = Some tg" "tg = Many ids"
  then show "((X, w, Event ''BATCHED'' None [] (Some (map (with_to event) ids)) None), (X, w, event))
      \<in> measure (\<lambda>(X, w, e). weight e)"
    by (cases event) (simp add: isBatchedEvent_def isRegisterEvent_def with_to_def o_def)
qed

declare stationsReducer.simps [simp del]

text \<open>
  Dispatching the events of a list one after the other, each against the registry the
  one before left (stated from the words of the fold law, to compare with the batch
  branch of the reducer).
\<close>

fun applyInOrder :: "'s xstate \<Rightarrow> 's heap \<times> 's stations \<Rightarrow> 's event list \<Rightarrow> error + 's heap \<times> 's stations" where
  "applyInOrder X w [] = Inr w"
| "applyInOrder X w (e # es) =
     (case stationsReducer X w e of
        Inl err \<Rightarrow> Inl err
      | Inr w' \<Rightarrow> applyInOrder X w' es)"

subsection \<open>The toggle machine\<close>

text \<open>
  \<^verbatim>\<open>createToggleMachine\<close> (toggleMachine.ts): two states, \<^verbatim>\<open>NO\<close> first, and the
  event \<^verbatim>\<open>TOGGLE\<close> leading from each to the other. \<open>toggle\<close> is what the interpreter
  of the library does with it on the events this application sends (\<^verbatim>\<open>TOGGLE\<close>,
  \<^verbatim>\<open>CHANGE\<close>, \<^verbatim>\<open>FOCUS\<close>, \<^verbatim>\<open>BLUR\<close>): \<^verbatim>\<open>TOGGLE\<close> changes the state, the others leave
  it as it is and are reported unchanged. The event types that the library keeps
  for itself (such as \<^verbatim>\<open>*\<close> and \<^verbatim>\<open>xstate.update\<close>), on which the interpreter throws or
  reports a change, are outside this definition. It instantiates the parameter \<open>X\<close>
  only in the concrete instances below, and only on the four events named.
\<close>

definition createToggleMachine :: "string \<Rightarrow> string machine" where
  "createToggleMachine i = \<lparr>machine_id = i, initialState = ''NO''\<rparr>"

definition toggle :: "string xstate" where
  "toggle m s event =
     (if etype event = ''TOGGLE'' then (if s = ''YES'' then ''NO'' else ''YES'', True)
      else (s, False))"

text \<open>A heap for the concrete instances: every address holds an interpreter of a toggle machine, in its first state.\<close>

definition blank_heap :: "string heap" where
  "blank_heap = (\<lambda>r. \<lparr>imachine = createToggleMachine ''provinceOrState'', istate = ''NO''\<rparr>)"

subsection \<open>The send function of a component\<close>

text \<open>
  What a component may hand to its send function (\<^verbatim>\<open>SupervisedEvent\<close>): the name of
  an event type, an event object, or an array of these.
\<close>

datatype 's sendable = TypeName string | EventObject "'s event"

datatype 's supervised = Single "'s sendable" | Array "'s sendable list"

text \<open>
  \<^verbatim>\<open>event.to || id\<close>: the identity of the component unless \<^verbatim>\<open>to\<close> is truthy. An
  absent \<^verbatim>\<open>to\<close> and the empty string are falsy; a non-empty string and every array,
  the empty one too, are truthy.
\<close>

definition to_or :: "target option \<Rightarrow> string \<Rightarrow> target" where
  "to_or t i =
     (case t of
        None \<Rightarrow> One i
      | Some (One k) \<Rightarrow> if k = [] then One i else One k
      | Some (Many ids) \<Rightarrow> Many ids)"

text \<open>The \<^verbatim>\<open>dispatchableEvent\<close> of lines 239 to 246 and 262 to 269.\<close>

definition dispatchableEvent :: "string \<Rightarrow> 's sendable \<Rightarrow> 's event" where
  "dispatchableEvent i x =
     (case x of
        TypeName t \<Rightarrow> Event t (Some (One i)) [] None None
      | EventObject e \<Rightarrow> Event (etype e) (Some (to_or (to e) i)) (props e) (events e) (payload e))"

text \<open>
  \<^verbatim>\<open>sendToStore\<close>, lines 229 to 272, for the component of identity \<open>i\<close>: the event it
  hands to \<^verbatim>\<open>dispatch\<close>.
\<close>

definition sendToStore :: "string \<Rightarrow> 's supervised \<Rightarrow> 's event" where
  "sendToStore i event =
     (case event of
        Array xs \<Rightarrow> Event ''BATCHED'' None [] (Some (map (dispatchableEvent i) xs)) None
      | Single x \<Rightarrow> dispatchableEvent i x)"

text \<open>
  The two shapes in which \<^verbatim>\<open>sendToStore\<close> declares what it dispatches (lines 238, 239
  and 262, after the types of lines 47 to 52): an event object that has a target
  (\<^verbatim>\<open>AnyDispatchedEvent\<close>), or a \<^verbatim>\<open>BATCHED\<close> event whose \<^verbatim>\<open>events\<close> are an array of event
  objects that each have a target.
\<close>

definition isAnyDispatchedEvent :: "'s event \<Rightarrow> bool" where
  "isAnyDispatchedEvent e \<longleftrightarrow> to e \<noteq> None"

definition uniformly_shaped :: "'s event \<Rightarrow> bool" where
  "uniformly_shaped e \<longleftrightarrow>
     isAnyDispatchedEvent e \<or>
     (etype e = ''BATCHED'' \<and>
      (case events e of None \<Rightarrow> False | Some es \<Rightarrow> list_all isAnyDispatchedEvent es))"

subsection \<open>The hook useSupervisedMachine\<close>

text \<open>
  The station the hook makes when the store has none under the machine's identity
  (lines 195 to 200), and the registration it dispatches for it (lines 207 to 211).
\<close>

definition newStation :: "'s machine \<Rightarrow> 's station" where
  "newStation m = Station (machine_id m) m None [] (initialState m)"

definition registerMachine :: "'s station \<Rightarrow> 's event" where
  "registerMachine p = Event ''REGISTER_MACHINE'' None [] None (Some p)"

text \<open>
  \<^verbatim>\<open>useMachine(machine, {state})\<close>, line 216: a new interpreter of the machine, at the
  address \<open>r\<close>, started from the given state.
\<close>

definition useMachine :: "'s heap \<Rightarrow> sref \<Rightarrow> 's machine \<Rightarrow> 's \<Rightarrow> 's heap" where
  "useMachine h r m s = h(r := \<lparr>imachine = m, istate = s\<rparr>)"

text \<open>
  The effect of lines 219 to 225 writes the \<^verbatim>\<open>service\<close> of what the store holds under
  the identity, in place; its cleanup writes \<^verbatim>\<open>undefined\<close> there. Writing a property
  of \<^verbatim>\<open>undefined\<close> throws a TypeError. When the store holds no station of that name
  but \<^verbatim>\<open>Object.prototype\<close> has a member of it, the write lands on that member and the
  registry stays as it is.
\<close>

definition attachEffect :: "'s heap \<times> 's stations \<Rightarrow> string \<Rightarrow> sref \<Rightarrow> error + 's heap \<times> 's stations" where
  "attachEffect w i r =
     (case get_property (snd w) i of
        Undefined \<Rightarrow> Inl TypeError
      | Inherited \<Rightarrow> Inr w
      | Own st \<Rightarrow>
          Inr (fst w, (snd w)(i \<mapsto> Station (station_id st) (machine st) (Some r) (eventQueue st) (state st))))"

definition detachEffect :: "'s heap \<times> 's stations \<Rightarrow> string \<Rightarrow> error + 's heap \<times> 's stations" where
  "detachEffect w i =
     (case get_property (snd w) i of
        Undefined \<Rightarrow> Inl TypeError
      | Inherited \<Rightarrow> Inr w
      | Own st \<Rightarrow>
          Inr (fst w, (snd w)(i \<mapsto> Station (station_id st) (machine st) None (eventQueue st) (state st))))"

text \<open>
  The effect of lines 278 to 285. \<^verbatim>\<open>maybeStation\<close> is what the store holds under the
  identity: a station; or nothing, and then it is the new station of the render, whose
  queue is empty; or a member of \<^verbatim>\<open>Object.prototype\<close>, and then reading the length of
  its missing queue throws a TypeError. \<^verbatim>\<open>splice\<close> empties the queue of the station in
  place and returns its events, which are then dispatched as one batch.
\<close>

definition drainEffect :: "'s xstate \<Rightarrow> 's heap \<times> 's stations \<Rightarrow> string \<Rightarrow> error + 's heap \<times> 's stations" where
  "drainEffect X w i =
     (case get_property (snd w) i of
        Undefined \<Rightarrow> Inr w
      | Inherited \<Rightarrow> Inl TypeError
      | Own st \<Rightarrow>
          if length (eventQueue st) > 0
          then stationsReducer X
                 (fst w, (snd w)(i \<mapsto> Station (station_id st) (machine st) (service st) [] (state st)))
                 (Event ''BATCHED'' None [] (Some (eventQueue st)) None)
          else Inr w)"

text \<open>
  The first render of a component that uses the machine \<open>m\<close>, with its effects in the
  order of the hook: the registration when the store holds nothing under the
  machine's identity (lines 192 to 213), the interpreter started from the last state
  of \<^verbatim>\<open>maybeStation\<close> (line 216; the initial state when it has none), the attachment,
  the draining of the queue. The effects of one render run one after the other and
  nothing else runs between them.
\<close>

definition attachAndDrain :: "'s xstate \<Rightarrow> 's heap \<times> 's stations \<Rightarrow> 's machine \<Rightarrow> sref \<Rightarrow> 's \<Rightarrow> error + 's heap \<times> 's stations" where
  "attachAndDrain X w m r s =
     (case attachEffect (useMachine (fst w) r m s, snd w) (machine_id m) r of
        Inl err \<Rightarrow> Inl err
      | Inr w' \<Rightarrow> drainEffect X w' (machine_id m))"

definition mount :: "'s xstate \<Rightarrow> 's heap \<times> 's stations \<Rightarrow> 's machine \<Rightarrow> sref \<Rightarrow> error + 's heap \<times> 's stations" where
  "mount X w m r =
     (case get_property (snd w) (machine_id m) of
        Undefined \<Rightarrow>
          (case stationsReducer X w (registerMachine (newStation m)) of
             Inl err \<Rightarrow> Inl err
           | Inr w' \<Rightarrow> attachAndDrain X w' m r (initialState m))
      | Inherited \<Rightarrow> attachAndDrain X w m r (initialState m)
      | Own st \<Rightarrow> attachAndDrain X w m r (state st))"

text \<open>
  An interpreter that is fed a list of events, one after the other, outside any
  station (the interpreter of the replay law).
\<close>

fun feed :: "'s xstate \<Rightarrow> 's interpreter \<Rightarrow> 's event list \<Rightarrow> 's interpreter" where
  "feed X i [] = i"
| "feed X i (e # es) = feed X (fst (interpreter_send X i e)) es"

subsection \<open>The states the application reaches\<close>

text \<open>
  An event that holds no registration, at any depth of batches. Components send such
  events; the registrations are those of the hook.
\<close>

fun no_registration :: "'s event \<Rightarrow> bool" where
  "no_registration (Event t tg ps evs p) =
     (t \<noteq> ''REGISTER_MACHINE'' \<and>
      (if t = ''BATCHED'' then (case evs of None \<Rightarrow> True | Some es \<Rightarrow> list_all no_registration es)
       else True))"

text \<open>No station refers to the interpreter at \<open>r\<close>.\<close>

definition unused :: "sref \<Rightarrow> 's stations \<Rightarrow> bool" where
  "unused r stations \<longleftrightarrow> (\<forall>k st. stations k = Some st \<longrightarrow> service st \<noteq> Some r)"

text \<open>
  The store starts with the empty registry. Then components dispatch events through
  their send functions, mount (with an interpreter at an address of its own), render
  again (which runs the draining effect again) and unmount. A step is what runs
  without interruption on the single thread of the user interface: one dispatch, or
  the effects of one render of one component. Between the attachment and the
  draining of a mount no other code runs, so the registry between them is not a
  state of its own.
\<close>

inductive reachable :: "'s xstate \<Rightarrow> 's heap \<times> 's stations \<Rightarrow> bool" for X :: "'s xstate" where
  start: "reachable X (h, Map.empty)"
| dispatch: "reachable X w \<Longrightarrow> no_registration e \<Longrightarrow> stationsReducer X w e = Inr w' \<Longrightarrow> reachable X w'"
| mounted: "reachable X w \<Longrightarrow> unused r (snd w) \<Longrightarrow> mount X w m r = Inr w' \<Longrightarrow> reachable X w'"
| rendered: "reachable X w \<Longrightarrow> drainEffect X w i = Inr w' \<Longrightarrow> reachable X w'"
| unmounted: "reachable X w \<Longrightarrow> detachEffect w i = Inr w' \<Longrightarrow> reachable X w'"

text \<open>The invariant of the data model: a station with a live interpreter has an empty queue.\<close>

definition live_queue_empty :: "'s heap \<times> 's stations \<Rightarrow> bool" where
  "live_queue_empty w \<longleftrightarrow>
     (\<forall>k st. snd w k = Some st \<longrightarrow> service st \<noteq> None \<longrightarrow> eventQueue st = [])"

text \<open>
  An event the router hands to the entry registered under \<open>k\<close>: neither a batch nor
  a registration, with \<open>k\<close> as its single target (or with no target, when \<open>k\<close> is the
  key that the missing value stands for).
\<close>

definition addressed :: "string \<Rightarrow> 's event \<Rightarrow> bool" where
  "addressed k e \<longleftrightarrow>
     \<not> isBatchedEvent e \<and> \<not> isRegisterEvent e \<and>
     (to e = Some (One k) \<or> to e = None \<and> k = ''undefined'')"

text \<open>Every queued event is one that the router handed to the entry it is queued in.\<close>

definition queues_addressed :: "'s heap \<times> 's stations \<Rightarrow> bool" where
  "queues_addressed w \<longleftrightarrow>
     (\<forall>k st e. snd w k = Some st \<longrightarrow> e \<in> set (eventQueue st) \<longrightarrow> addressed k e)"

text \<open>
  The contract of the interpreter that the replay law rests on: when it reports an
  event as unchanged, the state it returns is the state it was in.
\<close>

definition unchanged_keeps_state :: "'s xstate \<Rightarrow> 's machine \<Rightarrow> bool" where
  "unchanged_keeps_state X m \<longleftrightarrow> (\<forall>s e s'. X m s e = (s', False) \<longrightarrow> s' = s)"

section \<open>The branches of the router\<close>

lemma reduce_error:
  "foldl (\<lambda>acc next. case acc of Inl err \<Rightarrow> Inl err | Inr w \<Rightarrow> f w next) (Inl e) es = Inl e"
  by (induction es) simp_all

lemma reduce_applyInOrder:
  "foldl (\<lambda>acc next. case acc of Inl err \<Rightarrow> Inl err | Inr w \<Rightarrow> stationsReducer X w next) (Inr w) es
     = applyInOrder X w es"
proof (induction es arbitrary: w)
  case Nil
  show ?case by simp
next
  case (Cons e es)
  show ?case
  proof (cases "stationsReducer X w e")
    case (Inl err)
    then show ?thesis by (simp add: reduce_error)
  next
    case (Inr w')
    then show ?thesis by (simp add: Cons.IH)
  qed
qed

lemma stationsReducer_batched:
  assumes "isBatchedEvent event"
  shows "stationsReducer X w event =
           (case events event of None \<Rightarrow> Inl TypeError | Some es \<Rightarrow> applyInOrder X w es)"
proof (cases w)
  case (Pair h stations)
  show ?thesis
    unfolding Pair using assms
    by (subst stationsReducer.simps) (simp add: reduce_applyInOrder split: option.splits)
qed

lemma stationsReducer_register:
  assumes "\<not> isBatchedEvent event" and "isRegisterEvent event"
  shows "stationsReducer X (h, stations) event =
           (case payload event of
              None \<Rightarrow> Inl TypeError
            | Some p \<Rightarrow> Inr (h, stations(station_id p \<mapsto> p)))"
  using assms by (subst stationsReducer.simps) simp

lemma stationsReducer_many:
  assumes "\<not> isBatchedEvent event" and "\<not> isRegisterEvent event" and "to event = Some (Many ids)"
  shows "stationsReducer X w event = applyInOrder X w (map (with_to event) ids)"
proof (cases w)
  case (Pair h stations)
  have "stationsReducer X (h, stations) event =
          stationsReducer X (h, stations) (Event ''BATCHED'' None [] (Some (map (with_to event) ids)) None)"
    using assms by (subst stationsReducer.simps) simp
  then show ?thesis
    unfolding Pair by (simp add: stationsReducer_batched isBatchedEvent_def)
qed

lemma stationsReducer_one:
  assumes "\<not> isBatchedEvent event" and "\<not> isRegisterEvent event" and "to event = Some (One k)"
  shows "stationsReducer X w event = deliver X w k event"
  using assms by (cases w) (simp add: stationsReducer.simps)

lemma stationsReducer_none:
  assumes "\<not> isBatchedEvent event" and "\<not> isRegisterEvent event" and "to event = None"
  shows "stationsReducer X w event = deliver X w ''undefined'' event"
  using assms by (cases w) (simp add: stationsReducer.simps)

lemma stationsReducer_addressed:
  assumes "addressed k event"
  shows "stationsReducer X w event = deliver X w k event"
  using assms by (auto simp: addressed_def stationsReducer_one stationsReducer_none)

lemma weight_member:
  assumes "isBatchedEvent e" and "events e = Some es" and "x \<in> set es"
  shows "weight x < weight e"
proof -
  from assms(3) have "weight x \<le> sum_list (map weight es)"
    by (simp add: member_le_sum_list)
  with assms(1,2) show ?thesis
    by (cases e) (simp add: isBatchedEvent_def)
qed

lemma weight_copy:
  assumes "\<not> isBatchedEvent e" and "\<not> isRegisterEvent e" and "to e = Some (Many ids)"
  shows "weight (with_to e i) < weight e"
  using assms by (cases e) (simp add: isBatchedEvent_def isRegisterEvent_def with_to_def)

lemma applyInOrder_rel:
  assumes "applyInOrder X w es = Inr w'"
    and "\<And>e a b. e \<in> set es \<Longrightarrow> stationsReducer X a e = Inr b \<Longrightarrow> R a b"
    and "\<And>a. R a a" and "\<And>a b c. R a b \<Longrightarrow> R b c \<Longrightarrow> R a c"
  shows "R w w'"
  using assms(1,2)
proof (induction es arbitrary: w)
  case Nil
  then show ?case using assms(3) by simp
next
  case (Cons e es)
  from Cons.prems(1) obtain w1 where 1: "stationsReducer X w e = Inr w1"
    and 2: "applyInOrder X w1 es = Inr w'"
    by (auto split: sum.splits)
  have "R w w1" using Cons.prems(2) [of e w w1] 1 by simp
  moreover have "R w1 w'"
  proof (rule Cons.IH [OF 2])
    fix x a b
    assume "x \<in> set es" and "stationsReducer X a x = Inr b"
    then show "R a b" using Cons.prems(2) [of x a b] by simp
  qed
  ultimately show ?case using assms(4) by blast
qed

lemma stationsReducer_rel:
  assumes run: "stationsReducer X w event = Inr w'" and q: "Q event"
    and refl: "\<And>a. R a a" and trans: "\<And>a b c. R a b \<Longrightarrow> R b c \<Longrightarrow> R a c"
    and member: "\<And>e es x. Q e \<Longrightarrow> isBatchedEvent e \<Longrightarrow> events e = Some es \<Longrightarrow> x \<in> set es \<Longrightarrow> Q x"
    and copy: "\<And>e ids i. Q e \<Longrightarrow> \<not> isBatchedEvent e \<Longrightarrow> \<not> isRegisterEvent e \<Longrightarrow>
                 to e = Some (Many ids) \<Longrightarrow> Q (with_to e i)"
    and reg: "\<And>h stations e p. Q e \<Longrightarrow> \<not> isBatchedEvent e \<Longrightarrow> isRegisterEvent e \<Longrightarrow>
                 payload e = Some p \<Longrightarrow> R (h, stations) (h, stations(station_id p \<mapsto> p))"
    and del: "\<And>a b k e. Q e \<Longrightarrow> addressed k e \<Longrightarrow> deliver X a k e = Inr b \<Longrightarrow> R a b"
  shows "R w w'"
  using run q
proof (induction "weight event" arbitrary: event w w' rule: less_induct)
  case less
  show ?case
  proof (cases "isBatchedEvent event")
    case True
    with less.prems(1) obtain es where es: "events event = Some es"
      and run: "applyInOrder X w es = Inr w'"
      by (auto simp: stationsReducer_batched split: option.splits)
    show ?thesis
    proof (rule applyInOrder_rel [OF run _ refl trans])
      fix e a b
      assume "e \<in> set es" and "stationsReducer X a e = Inr b"
      then show "R a b"
        using less.hyps [of e a b] weight_member [OF True es] member [OF less.prems(2) True es]
        by simp
    qed
  next
    case nb: False
    show ?thesis
    proof (cases "isRegisterEvent event")
      case True
      with nb less.prems show ?thesis
        by (cases w) (auto simp: stationsReducer_register reg split: option.splits)
    next
      case nr: False
      show ?thesis
      proof (cases "to event")
        case None
        with nb nr have "addressed ''undefined'' event"
          by (simp add: addressed_def)
        with None nb nr less.prems show ?thesis
          by (auto simp: stationsReducer_none intro: del)
      next
        case (Some tg)
        show ?thesis
        proof (cases tg)
          case (One k)
          with Some nb nr have "addressed k event"
            by (simp add: addressed_def)
          with One Some nb nr less.prems show ?thesis
            by (auto simp: stationsReducer_one intro: del)
        next
          case (Many ids)
          with Some have to: "to event = Some (Many ids)" by simp
          from less.prems(1) have run: "applyInOrder X w (map (with_to event) ids) = Inr w'"
            by (simp add: stationsReducer_many [OF nb nr to])
          show ?thesis
          proof (rule applyInOrder_rel [OF run _ refl trans])
            fix e a b
            assume "e \<in> set (map (with_to event) ids)" and "stationsReducer X a e = Inr b"
            then show "R a b"
              using less.hyps [of e a b] weight_copy [OF nb nr to] copy [OF less.prems(2) nb nr to]
              by auto
          qed
        qed
      qed
    qed
  qed
qed

lemma get_property_own: "obj k = Some v \<Longrightarrow> get_property obj k = Own v"
  by (simp add: get_property_def)

lemma deliver_dom:
  assumes "deliver X a k e = Inr b"
  shows "dom (snd a) \<subseteq> dom (snd b)"
  using assms
  by (auto simp: deliver_def get_property_def split: option.splits if_splits prod.splits)

lemma register_not_batched: "isRegisterEvent e \<Longrightarrow> \<not> isBatchedEvent e"
  by (simp add: isRegisterEvent_def isBatchedEvent_def)

lemma unknown_target_dropped:
  assumes "\<not> isBatchedEvent event" and "\<not> isRegisterEvent event" and "to event = Some (One k)"
    and "stations k = None" and "k \<notin> set object_prototype_keys"
  shows "stationsReducer X (h, stations) event = Inr (h, stations)"
  using assms by (simp add: stationsReducer_one deliver_def get_property_def)

lemma deliver_queued:
  assumes "stations k = Some st" and "service st = None"
  shows "deliver X (h, stations) k e =
           Inr (h, stations(k \<mapsto> Station (station_id st) (machine st) None (eventQueue st @ [e]) (state st)))"
  using assms by (simp add: deliver_def get_property_def stationReducer_def)

lemma deliver_frame:
  assumes "deliver X a i e = Inr b" and "k \<noteq> i"
  shows "snd b k = snd a k"
  using assms
  by (auto simp: deliver_def get_property_def split: option.splits if_splits prod.splits)

lemma copies_frame:
  assumes run: "applyInOrder X w (map (with_to event) ids) = Inr w'"
    and nb: "\<not> isBatchedEvent event" and nr: "\<not> isRegisterEvent event" and k: "k \<notin> set ids"
  shows "snd w' k = snd w k"
proof (rule applyInOrder_rel [where R = "\<lambda>a b. snd b k = snd a k", OF run])
  fix e a b
  assume "e \<in> set (map (with_to event) ids)" and step: "stationsReducer X a e = Inr b"
  then obtain i where i: "i \<in> set ids" and e: "e = with_to event i"
    by auto
  have "stationsReducer X a e = deliver X a i e"
    using nb nr unfolding e
    by (intro stationsReducer_one) (simp_all add: with_to_def isBatchedEvent_def isRegisterEvent_def)
  with step have "deliver X a i e = Inr b" by simp
  moreover from i k have "k \<noteq> i" by auto
  ultimately show "snd b k = snd a k" by (rule deliver_frame)
qed simp_all

section \<open>The hook: draining and the invariant\<close>

lemma deliver_live:
  assumes st: "stations k = Some st" and r: "service st = Some r"
    and same: "istate (h r) = state st"
    and contract: "unchanged_keeps_state X (imachine (h r))"
  shows "deliver X (h, stations) k e =
           Inr (h(r := fst (interpreter_send X (h r) e)),
                stations(k \<mapsto> Station (station_id st) (machine st) (Some r) (eventQueue st)
                                 (istate (fst (interpreter_send X (h r) e)))))"
proof (cases "X (imachine (h r)) (istate (h r)) e")
  case (Pair nxt changed)
  show ?thesis
  proof (cases changed)
    case True
    with Pair st r show ?thesis
      by (simp add: deliver_def get_property_def stationReducer_def send_def interpreter_send_def)
  next
    case False
    with Pair contract have "nxt = istate (h r)"
      by (auto simp: unchanged_keeps_state_def)
    with same have "Station (station_id st) (machine st) (Some r) (eventQueue st) nxt = st"
      using r by (cases st) simp
    with False Pair st r show ?thesis
      by (simp add: deliver_def get_property_def stationReducer_def send_def interpreter_send_def)
  qed
qed

lemma interpreter_send_machine: "imachine (fst (interpreter_send X i e)) = imachine i"
  by (simp add: interpreter_send_def split: prod.splits)

lemma live_run:
  assumes "stations k = Some st" and "service st = Some r"
    and "istate (h r) = state st"
    and "unchanged_keeps_state X (imachine (h r))"
    and "\<forall>e\<in>set es. addressed k e"
  shows "applyInOrder X (h, stations) es =
           Inr (h(r := feed X (h r) es),
                stations(k \<mapsto> Station (station_id st) (machine st) (Some r) (eventQueue st)
                                 (istate (feed X (h r) es))))"
  using assms
proof (induction es arbitrary: h stations st)
  case Nil
  have "Station (station_id st) (machine st) (Some r) (eventQueue st) (istate (h r)) = st"
    using Nil.prems(2,3) by (cases st) simp
  with Nil.prems(1) show ?case
    by (simp add: map_upd_triv)
next
  case (Cons e es)
  let ?i = "fst (interpreter_send X (h r) e)"
  let ?st = "Station (station_id st) (machine st) (Some r) (eventQueue st) (istate ?i)"
  let ?h = "h(r := ?i)"
  from Cons.prems(5) have e: "addressed k e"
    by simp
  have step: "stationsReducer X (h, stations) e = Inr (?h, stations(k \<mapsto> ?st))"
    using Cons.prems(1-4) by (simp add: stationsReducer_addressed [OF e] deliver_live)
  have "applyInOrder X (?h, stations(k \<mapsto> ?st)) es =
          Inr (?h(r := feed X (?h r) es),
               (stations(k \<mapsto> ?st))(k \<mapsto> Station (station_id ?st) (machine ?st) (Some r) (eventQueue ?st)
                                 (istate (feed X (?h r) es))))"
    using Cons.prems(4,5) by (intro Cons.IH) (simp_all add: interpreter_send_machine)
  then have rest: "applyInOrder X (?h, stations(k \<mapsto> ?st)) es =
          Inr (h(r := feed X (h r) (e # es)),
               stations(k \<mapsto> Station (station_id st) (machine st) (Some r) (eventQueue st)
                                 (istate (feed X (h r) (e # es)))))"
    by simp
  show ?case
    by (simp only: applyInOrder.simps step sum.case rest)
qed

lemma plain_no_registration:
  assumes "\<not> isBatchedEvent e" and "\<not> isRegisterEvent e"
  shows "no_registration e"
  using assms by (cases e) (simp add: isBatchedEvent_def isRegisterEvent_def)

lemma no_registration_member:
  assumes "no_registration e" and "isBatchedEvent e" and "events e = Some es" and "x \<in> set es"
  shows "no_registration x"
  using assms by (cases e) (simp add: isBatchedEvent_def list_all_iff)

lemma no_registration_not_register: "no_registration e \<Longrightarrow> \<not> isRegisterEvent e"
  by (cases e) (simp add: isRegisterEvent_def)

lemma no_registration_copy:
  assumes "\<not> isBatchedEvent e" and "\<not> isRegisterEvent e"
  shows "no_registration (with_to e i)"
  using assms by (simp add: with_to_def isBatchedEvent_def isRegisterEvent_def)

lemma deliver_invariant:
  assumes inv: "live_queue_empty a \<and> queues_addressed a"
    and e: "addressed k e"
    and run: "deliver X a k e = Inr b"
  shows "live_queue_empty b \<and> queues_addressed b"
proof (cases "snd a k")
  case None
  with run have "b = a"
    by (auto simp: deliver_def get_property_def split: if_splits)
  with inv show ?thesis by simp
next
  case (Some st)
  then have b: "b = (fst (stationReducer X (fst a) st e),
      (snd a)(k \<mapsto> returned_station st (snd (stationReducer X (fst a) st e))))"
    using run by (auto simp: deliver_def get_property_def split: prod.splits)
  from inv Some have live: "service st \<noteq> None \<Longrightarrow> eventQueue st = []"
    and plain: "\<forall>x\<in>set (eventQueue st). addressed k x"
    by (auto simp: live_queue_empty_def queues_addressed_def)
  let ?st = "returned_station st (snd (stationReducer X (fst a) st e))"
  have 1: "service ?st = service st"
    by (simp add: stationReducer_def split: option.splits prod.splits)
  have 2: "service st \<noteq> None \<Longrightarrow> eventQueue ?st = eventQueue st"
    by (auto simp: stationReducer_def split: option.splits prod.splits)
  have 3: "set (eventQueue ?st) \<subseteq> insert e (set (eventQueue st))"
    by (auto simp: stationReducer_def split: option.splits prod.splits if_splits)
  have "live_queue_empty b"
    unfolding live_queue_empty_def b using inv 1 2 live
    by (auto simp: live_queue_empty_def)
  moreover have "queues_addressed b"
    unfolding queues_addressed_def b using inv 3 plain e
    by (auto simp: queues_addressed_def)
  ultimately show ?thesis by simp
qed

lemma router_invariant:
  assumes "live_queue_empty w \<and> queues_addressed w" and "no_registration e"
    and run: "stationsReducer X w e = Inr w'"
  shows "live_queue_empty w' \<and> queues_addressed w'"
proof -
  have "live_queue_empty w \<and> queues_addressed w \<longrightarrow> live_queue_empty w' \<and> queues_addressed w'"
  proof (rule stationsReducer_rel [where Q = no_registration
        and R = "\<lambda>a b. live_queue_empty a \<and> queues_addressed a \<longrightarrow> live_queue_empty b \<and> queues_addressed b",
        OF run assms(2)])
    fix e :: "'a event" and es x
    assume "no_registration e" "isBatchedEvent e" "events e = Some es" "x \<in> set es"
    then show "no_registration x" by (rule no_registration_member)
  next
    fix e :: "'a event" and ids i
    assume "\<not> isBatchedEvent e" "\<not> isRegisterEvent e"
    then show "no_registration (with_to e i)" by (rule no_registration_copy)
  next
    fix h :: "'a heap" and stations :: "'a stations" and e p
    assume "no_registration e" "isRegisterEvent e"
    then show "live_queue_empty (h, stations) \<and> queues_addressed (h, stations) \<longrightarrow>
        live_queue_empty (h, stations(station_id p \<mapsto> p)) \<and> queues_addressed (h, stations(station_id p \<mapsto> p))"
      by (simp add: no_registration_not_register)
  next
    fix a b k and e :: "'a event"
    assume "addressed k e" "deliver X a k e = Inr b"
    then show "live_queue_empty a \<and> queues_addressed a \<longrightarrow> live_queue_empty b \<and> queues_addressed b"
      using deliver_invariant by blast
  qed auto
  with assms(1) show ?thesis by simp
qed

lemma drain_invariant:
  assumes others: "\<forall>k st. k \<noteq> i \<longrightarrow> snd w k = Some st \<longrightarrow> service st \<noteq> None \<longrightarrow> eventQueue st = []"
    and plain: "queues_addressed w"
    and run: "drainEffect X w i = Inr w'"
  shows "live_queue_empty w' \<and> queues_addressed w'"
proof (cases "snd w i")
  case None
  with run have "w' = w"
    by (simp add: drainEffect_def get_property_def split: if_splits)
  moreover have "live_queue_empty w"
    using others None unfolding live_queue_empty_def by (metis option.distinct(1))
  ultimately show ?thesis using plain by simp
next
  case (Some st)
  show ?thesis
  proof (cases "eventQueue st = []")
    case True
    with Some run have "w' = w" by (simp add: drainEffect_def get_property_own)
    moreover have "live_queue_empty w"
      using others Some True unfolding live_queue_empty_def by (metis option.inject)
    ultimately show ?thesis using plain by simp
  next
    case False
    let ?w = "(fst w, (snd w)(i \<mapsto> Station (station_id st) (machine st) (service st) [] (state st)))"
    let ?b = "Event ''BATCHED'' None [] (Some (eventQueue st)) None"
    from Some False run have r: "stationsReducer X ?w ?b = Inr w'"
      by (simp add: drainEffect_def get_property_own)
    have "live_queue_empty ?w"
      using others unfolding live_queue_empty_def by auto
    moreover have "queues_addressed ?w"
      using plain unfolding queues_addressed_def by auto
    moreover have "no_registration ?b"
      using plain Some
      by (auto simp: queues_addressed_def addressed_def list_all_iff intro: plain_no_registration)
    ultimately show ?thesis
      using router_invariant [OF _ _ r] by blast
  qed
qed

lemma attachAndDrain_invariant:
  assumes inv: "live_queue_empty w \<and> queues_addressed w"
    and run: "attachAndDrain X w m r s = Inr w'"
  shows "live_queue_empty w' \<and> queues_addressed w'"
proof -
  from run obtain w1 where a: "attachEffect (useMachine (fst w) r m s, snd w) (machine_id m) r = Inr w1"
    and d: "drainEffect X w1 (machine_id m) = Inr w'"
    by (auto simp: attachAndDrain_def split: sum.splits)
  show ?thesis
  proof (cases "snd w (machine_id m)")
    case None
    with a have "w1 = (useMachine (fst w) r m s, snd w)"
      by (auto simp: attachEffect_def get_property_def split: if_splits)
    then have "\<forall>k st. k \<noteq> machine_id m \<longrightarrow> snd w1 k = Some st \<longrightarrow> service st \<noteq> None \<longrightarrow> eventQueue st = []"
      and "queues_addressed w1"
      using inv by (simp_all add: live_queue_empty_def queues_addressed_def)
    then show ?thesis
      using d by (rule drain_invariant)
  next
    case (Some st)
    with a have w1: "w1 = (useMachine (fst w) r m s,
        (snd w)(machine_id m \<mapsto> Station (station_id st) (machine st) (Some r) (eventQueue st) (state st)))"
      by (auto simp: attachEffect_def get_property_own)
    have "\<forall>k st. k \<noteq> machine_id m \<longrightarrow> snd w1 k = Some st \<longrightarrow> service st \<noteq> None \<longrightarrow> eventQueue st = []"
      using inv unfolding w1 live_queue_empty_def by simp
    moreover have "queues_addressed w1"
      using inv Some unfolding w1 queues_addressed_def by auto
    ultimately show ?thesis
      using d by (rule drain_invariant)
  qed
qed

lemma mount_invariant:
  assumes inv: "live_queue_empty w \<and> queues_addressed w"
    and run: "mount X w m r = Inr w'"
  shows "live_queue_empty w' \<and> queues_addressed w'"
proof (cases "get_property (snd w) (machine_id m)")
  case (Own st)
  with run have "attachAndDrain X w m r (state st) = Inr w'"
    by (simp add: mount_def)
  with inv show ?thesis by (rule attachAndDrain_invariant)
next
  case Inherited
  with run have "attachAndDrain X w m r (initialState m) = Inr w'"
    by (simp add: mount_def)
  with inv show ?thesis by (rule attachAndDrain_invariant)
next
  case Undefined
  with run obtain w1 where reg: "stationsReducer X w (registerMachine (newStation m)) = Inr w1"
    and rest: "attachAndDrain X w1 m r (initialState m) = Inr w'"
    by (auto simp: mount_def split: sum.splits)
  from reg have w1: "w1 = (fst w, (snd w)(machine_id m \<mapsto> newStation m))"
    by (cases w)
      (simp add: stationsReducer_register registerMachine_def isBatchedEvent_def isRegisterEvent_def
        newStation_def)
  have "live_queue_empty w1 \<and> queues_addressed w1"
    using inv unfolding w1 live_queue_empty_def queues_addressed_def
    by (auto simp: newStation_def)
  then show ?thesis using rest by (rule attachAndDrain_invariant)
qed

lemma detach_invariant:
  assumes inv: "live_queue_empty w \<and> queues_addressed w"
    and run: "detachEffect w i = Inr w'"
  shows "live_queue_empty w' \<and> queues_addressed w'"
  using assms
  by (auto simp: detachEffect_def get_property_def live_queue_empty_def queues_addressed_def
      split: option.splits if_splits)

lemma reachable_invariant:
  assumes "reachable X w"
  shows "live_queue_empty w \<and> queues_addressed w"
  using assms
proof (induction rule: reachable.induct)
  case (start h)
  show ?case by (simp add: live_queue_empty_def queues_addressed_def)
next
  case (dispatch w e w')
  then show ?case using router_invariant by blast
next
  case (mounted w r m w')
  then show ?case using mount_invariant by blast
next
  case (rendered w i w')
  from rendered.IH have "\<forall>k st. k \<noteq> i \<longrightarrow> snd w k = Some st \<longrightarrow> service st \<noteq> None \<longrightarrow> eventQueue st = []"
    by (simp add: live_queue_empty_def)
  with rendered show ?case using drain_invariant by blast
next
  case (unmounted w i w')
  then show ?case using detach_invariant by blast
qed

lemma reachable_queues_addressed:
  assumes "reachable X (h, stations)" and "stations k = Some st" and "e \<in> set (eventQueue st)"
  shows "addressed k e"
  using reachable_invariant [OF assms(1)] assms(2,3)
  by (auto simp: queues_addressed_def)

section \<open>The laws of the router\<close>

text \<open>
  C1. For every registry and every batch event, applying the batch with the router
  equals applying its member events one after the other in list order, each step
  starting from the registry the step before returned (a step that throws ends the
  whole application, as it does inside \<^verbatim>\<open>reduce\<close>).
\<close>

theorem batch_is_left_fold:
  assumes "isBatchedEvent event" and "events event = Some es"
  shows "stationsReducer X w event = applyInOrder X w es"
  using assms by (simp add: stationsReducer_batched)

theorem batch_is_left_fold_witness:
  "isBatchedEvent (Event ''BATCHED'' None [] (Some [Event ''FOCUS'' (Some (One ''City'')) [] None None,
       Event ''BLUR'' (Some (One ''City'')) [] None None]) None :: string event)
   \<and> stationsReducer toggle
        (blank_heap, [''City'' \<mapsto> Station ''City'' (createToggleMachine ''City'') None [] ''NO''])
        (Event ''BATCHED'' None [] (Some [Event ''FOCUS'' (Some (One ''City'')) [] None None,
           Event ''BLUR'' (Some (One ''City'')) [] None None]) None)
      = Inr (blank_heap,
             [''City'' \<mapsto> Station ''City'' (createToggleMachine ''City'') None
                [Event ''FOCUS'' (Some (One ''City'')) [] None None,
                 Event ''BLUR'' (Some (One ''City'')) [] None None] ''NO''])"
proof -
  let ?es = "[Event ''FOCUS'' (Some (One ''City'')) [] None None,
              Event ''BLUR'' (Some (One ''City'')) [] None None] :: string event list"
  let ?b = "Event ''BATCHED'' None [] (Some ?es) None :: string event"
  have b: "isBatchedEvent ?b" by (simp add: isBatchedEvent_def)
  have es: "events ?b = Some ?es" by simp
  show ?thesis
    using b batch_is_left_fold [OF b es, of toggle]
    by (simp add: stationsReducer_one isBatchedEvent_def isRegisterEvent_def deliver_def
        get_property_def stationReducer_def)
qed

text \<open>
  C2. For every registry and every event whose target is a list of identities (an
  event of the third kind: neither a batch nor a registration), applying the event
  with the router equals applying, in the order of the list, one copy of the event
  per identity: the same type, the same remaining properties, the target set to that
  identity alone. A station whose identity is not in the list is the same after as
  before.
\<close>

theorem list_target_expands:
  assumes "\<not> isBatchedEvent event" and "\<not> isRegisterEvent event" and "to event = Some (Many ids)"
  shows "stationsReducer X (h, stations) event =
           applyInOrder X (h, stations)
             (map (\<lambda>i. Event (etype event) (Some (One i)) (props event) (events event) (payload event)) ids)
       \<and> (\<forall>h' stations' k. stationsReducer X (h, stations) event = Inr (h', stations') \<and> k \<notin> set ids
             \<longrightarrow> stations' k = stations k)"
proof (intro conjI allI impI)
  have copies: "map (\<lambda>i. Event (etype event) (Some (One i)) (props event) (events event) (payload event)) ids
      = map (with_to event) ids"
    by (simp add: with_to_def)
  have eq: "stationsReducer X (h, stations) event = applyInOrder X (h, stations) (map (with_to event) ids)"
    using assms by (rule stationsReducer_many)
  then show "stationsReducer X (h, stations) event =
           applyInOrder X (h, stations)
             (map (\<lambda>i. Event (etype event) (Some (One i)) (props event) (events event) (payload event)) ids)"
    by (simp only: copies)
  fix h' stations' k
  assume "stationsReducer X (h, stations) event = Inr (h', stations') \<and> k \<notin> set ids"
  with eq have "applyInOrder X (h, stations) (map (with_to event) ids) = Inr (h', stations')"
    and "k \<notin> set ids" by simp_all
  from copies_frame [OF this(1) assms(1,2) this(2)] show "stations' k = stations k"
    by simp
qed

text \<open>
  An instance: \<^verbatim>\<open>TOGGLE\<close> with a value, for \<^verbatim>\<open>State\<close> (live) and \<^verbatim>\<open>Province\<close> (not
  live). \<^verbatim>\<open>State\<close> changes its state, \<^verbatim>\<open>Province\<close> queues its copy, value and all,
  and \<^verbatim>\<open>City\<close>, which the list does not name, stays as it is.
\<close>

theorem list_target_expands_witness:
  "\<not> isBatchedEvent (Event ''TOGGLE'' (Some (Many [''State'', ''Province''])) [(''value'', ''on'')] None None :: string event)
   \<and> \<not> isRegisterEvent (Event ''TOGGLE'' (Some (Many [''State'', ''Province''])) [(''value'', ''on'')] None None :: string event)
   \<and> to (Event ''TOGGLE'' (Some (Many [''State'', ''Province''])) [(''value'', ''on'')] None None :: string event)
       = Some (Many [''State'', ''Province''])
   \<and> stationsReducer toggle
        (blank_heap,
         [''State'' \<mapsto> Station ''State'' (createToggleMachine ''State'') (Some 0) [] ''NO'',
          ''Province'' \<mapsto> Station ''Province'' (createToggleMachine ''Province'') None [] ''NO'',
          ''City'' \<mapsto> Station ''City'' (createToggleMachine ''City'') (Some 1) [] ''NO''])
        (Event ''TOGGLE'' (Some (Many [''State'', ''Province''])) [(''value'', ''on'')] None None)
      = applyInOrder toggle
        (blank_heap,
         [''State'' \<mapsto> Station ''State'' (createToggleMachine ''State'') (Some 0) [] ''NO'',
          ''Province'' \<mapsto> Station ''Province'' (createToggleMachine ''Province'') None [] ''NO'',
          ''City'' \<mapsto> Station ''City'' (createToggleMachine ''City'') (Some 1) [] ''NO''])
        [Event ''TOGGLE'' (Some (One ''State'')) [(''value'', ''on'')] None None,
         Event ''TOGGLE'' (Some (One ''Province'')) [(''value'', ''on'')] None None]
   \<and> stationsReducer toggle
        (blank_heap,
         [''State'' \<mapsto> Station ''State'' (createToggleMachine ''State'') (Some 0) [] ''NO'',
          ''Province'' \<mapsto> Station ''Province'' (createToggleMachine ''Province'') None [] ''NO'',
          ''City'' \<mapsto> Station ''City'' (createToggleMachine ''City'') (Some 1) [] ''NO''])
        (Event ''TOGGLE'' (Some (Many [''State'', ''Province''])) [(''value'', ''on'')] None None)
      = Inr (blank_heap(0 := \<lparr>imachine = createToggleMachine ''provinceOrState'', istate = ''YES''\<rparr>),
         [''State'' \<mapsto> Station ''State'' (createToggleMachine ''State'') (Some 0) [] ''YES'',
          ''Province'' \<mapsto> Station ''Province'' (createToggleMachine ''Province'') None
               [Event ''TOGGLE'' (Some (One ''Province'')) [(''value'', ''on'')] None None] ''NO'',
          ''City'' \<mapsto> Station ''City'' (createToggleMachine ''City'') (Some 1) [] ''NO''])"
proof -
  let ?e = "Event ''TOGGLE'' (Some (Many [''State'', ''Province''])) [(''value'', ''on'')] None None :: string event"
  let ?w = "(blank_heap,
         [''State'' \<mapsto> Station ''State'' (createToggleMachine ''State'') (Some 0) [] ''NO'',
          ''Province'' \<mapsto> Station ''Province'' (createToggleMachine ''Province'') None [] ''NO'',
          ''City'' \<mapsto> Station ''City'' (createToggleMachine ''City'') (Some 1) [] ''NO''])"
  let ?copies = "[Event ''TOGGLE'' (Some (One ''State'')) [(''value'', ''on'')] None None,
         Event ''TOGGLE'' (Some (One ''Province'')) [(''value'', ''on'')] None None] :: string event list"
  have 1: "\<not> isBatchedEvent ?e" by (simp add: isBatchedEvent_def)
  have 2: "\<not> isRegisterEvent ?e" by (simp add: isRegisterEvent_def)
  have 3: "to ?e = Some (Many [''State'', ''Province''])" by simp
  have "stationsReducer toggle ?w ?e =
      applyInOrder toggle ?w
        (map (\<lambda>i. Event (etype ?e) (Some (One i)) (props ?e) (events ?e) (payload ?e)) [''State'', ''Province''])"
    using list_target_expands [OF 1 2 3, of toggle] by blast
  then have a: "stationsReducer toggle ?w ?e = applyInOrder toggle ?w ?copies"
    by simp
  have b: "applyInOrder toggle ?w ?copies
     = Inr (blank_heap(0 := \<lparr>imachine = createToggleMachine ''provinceOrState'', istate = ''YES''\<rparr>),
         [''State'' \<mapsto> Station ''State'' (createToggleMachine ''State'') (Some 0) [] ''YES'',
          ''Province'' \<mapsto> Station ''Province'' (createToggleMachine ''Province'') None
               [Event ''TOGGLE'' (Some (One ''Province'')) [(''value'', ''on'')] None None] ''NO'',
          ''City'' \<mapsto> Station ''City'' (createToggleMachine ''City'') (Some 1) [] ''NO''])"
    by (simp add: stationsReducer_one isBatchedEvent_def isRegisterEvent_def deliver_def
        get_property_def stationReducer_def send_def interpreter_send_def toggle_def blank_heap_def
        fun_upd_twist)
  from a b 1 2 3 show ?thesis
    by (simp only: simp_thms)
qed

text \<open>
  C5. A station without a live interpreter is registered under \<open>k\<close>. For every list of
  events with the single target \<open>k\<close>, dispatched one after the other, the router
  returns, and the queue of the station is then its former queue followed by exactly
  these events in the order of their arrival; nothing else of the station, of the
  registry or of the interpreters changes.
\<close>

theorem queue_is_fifo:
  assumes "stations k = Some st" and "service st = None" and "\<forall>e\<in>set es. addressed k e"
  shows "applyInOrder X (h, stations) es =
           Inr (h, stations(k \<mapsto> Station (station_id st) (machine st) None (eventQueue st @ es) (state st)))"
  using assms
proof (induction es arbitrary: stations st)
  case Nil
  have "Station (station_id st) (machine st) None (eventQueue st) (state st) = st"
    using Nil.prems(2) by (cases st) simp
  with Nil.prems(1) show ?case
    by (simp add: map_upd_triv)
next
  case (Cons e es)
  let ?st = "Station (station_id st) (machine st) None (eventQueue st @ [e]) (state st)"
  from Cons.prems(3) have e: "addressed k e"
    by simp
  have step: "stationsReducer X (h, stations) e = Inr (h, stations(k \<mapsto> ?st))"
    using Cons.prems(1,2) by (simp add: stationsReducer_addressed [OF e] deliver_queued)
  have "applyInOrder X (h, stations(k \<mapsto> ?st)) es =
          Inr (h, (stations(k \<mapsto> ?st))(k \<mapsto> Station (station_id ?st) (machine ?st) None (eventQueue ?st @ es) (state ?st)))"
    using Cons.prems(3) by (intro Cons.IH) simp_all
  then have rest: "applyInOrder X (h, stations(k \<mapsto> ?st)) es =
          Inr (h, stations(k \<mapsto> Station (station_id st) (machine st) None (eventQueue st @ e # es) (state st)))"
    by simp
  show ?case
    by (simp only: applyInOrder.simps step sum.case rest)
qed

theorem queue_is_fifo_witness:
  "[''City'' \<mapsto> newStation (createToggleMachine ''City'')] ''City'' = Some (newStation (createToggleMachine ''City''))
   \<and> service (newStation (createToggleMachine ''City'')) = None
   \<and> addressed ''City'' (Event ''FOCUS'' (Some (One ''City'')) [] None None :: string event)
   \<and> addressed ''City'' (Event ''CHANGE'' (Some (One ''City'')) [(''value'', ''Oslo'')] None None :: string event)
   \<and> addressed ''City'' (Event ''BLUR'' (Some (One ''City'')) [] None None :: string event)
   \<and> applyInOrder toggle (blank_heap, [''City'' \<mapsto> newStation (createToggleMachine ''City'')])
        [Event ''FOCUS'' (Some (One ''City'')) [] None None,
         Event ''CHANGE'' (Some (One ''City'')) [(''value'', ''Oslo'')] None None,
         Event ''BLUR'' (Some (One ''City'')) [] None None]
      = Inr (blank_heap, [''City'' \<mapsto> Station ''City'' (createToggleMachine ''City'') None
           [Event ''FOCUS'' (Some (One ''City'')) [] None None,
            Event ''CHANGE'' (Some (One ''City'')) [(''value'', ''Oslo'')] None None,
            Event ''BLUR'' (Some (One ''City'')) [] None None] ''NO''])"
proof -
  let ?es = "[Event ''FOCUS'' (Some (One ''City'')) [] None None,
              Event ''CHANGE'' (Some (One ''City'')) [(''value'', ''Oslo'')] None None,
              Event ''BLUR'' (Some (One ''City'')) [] None None] :: string event list"
  let ?st = "newStation (createToggleMachine ''City'')"
  have 1: "[''City'' \<mapsto> ?st] ''City'' = Some ?st" by simp
  have 2: "service ?st = None" by (simp add: newStation_def)
  have 3: "\<forall>e\<in>set ?es. addressed ''City'' e"
    by (simp add: addressed_def isBatchedEvent_def isRegisterEvent_def)
  have "applyInOrder toggle (blank_heap, [''City'' \<mapsto> ?st]) ?es
      = Inr (blank_heap, [''City'' \<mapsto> Station ''City'' (createToggleMachine ''City'') None ?es ''NO''])"
    using queue_is_fifo [where stations = "[''City'' \<mapsto> ?st]" and k = "''City''" and st = ?st
        and es = ?es and X = toggle and h = blank_heap, OF 1 2 3]
    by (simp add: newStation_def createToggleMachine_def)
  with 1 2 3 show ?thesis
    by simp
qed

text \<open>
  C6. The specification has the router return the registry as it is, with no error,
  for every event whose single target has no entry in the registry. The lemma
  \<open>unknown_target_dropped\<close> above shows this for every target that is not the name of
  a member of \<^verbatim>\<open>Object.prototype\<close>. For those names the code does otherwise: in the
  empty registry, an event for \<^verbatim>\<open>toString\<close> finds the inherited function, takes it
  for a station and throws a TypeError.
\<close>

theorem inherited_target_throws:
  "stationsReducer X (h, Map.empty) (Event ''CHANGE'' (Some (One ''toString'')) [] None None) = Inl TypeError"
  by (simp add: stationsReducer_one isBatchedEvent_def isRegisterEvent_def deliver_def
      get_property_def object_prototype_keys_def)

text \<open>
  C7. For every station with a live interpreter and every event, the per-station
  reducer feeds the event to that interpreter, whose current state becomes the state
  the transition gives. When the interpreter reports a change, the reducer returns a
  new station object: the given one with this state as its stored state. When it
  reports none, the reducer returns the very object it was given, not a copy.
\<close>

theorem live_station_step:
  assumes "service st = Some r"
    and "X (imachine (h r)) (istate (h r)) event = (next, changed)"
  shows "stationReducer X h st event =
           (h(r := (h r)\<lparr>istate := next\<rparr>),
            if changed
            then NewObject (Station (station_id st) (machine st) (service st) (eventQueue st) next)
            else SameObject)"
  using assms by (simp add: stationReducer_def send_def interpreter_send_def)

theorem live_station_step_witness:
  "service (Station ''provinceOrState'' (createToggleMachine ''provinceOrState'') (Some 0) [] ''NO'') = Some 0
   \<and> toggle (imachine (blank_heap 0)) (istate (blank_heap 0)) (Event ''TOGGLE'' (Some (One ''provinceOrState'')) [] None None)
       = (''YES'', True)
   \<and> stationReducer toggle blank_heap
        (Station ''provinceOrState'' (createToggleMachine ''provinceOrState'') (Some 0) [] ''NO'')
        (Event ''TOGGLE'' (Some (One ''provinceOrState'')) [] None None)
      = (blank_heap(0 := \<lparr>imachine = createToggleMachine ''provinceOrState'', istate = ''YES''\<rparr>),
         NewObject (Station ''provinceOrState'' (createToggleMachine ''provinceOrState'') (Some 0) [] ''YES''))
   \<and> toggle (imachine (blank_heap 0)) (istate (blank_heap 0)) (Event ''FOCUS'' (Some (One ''provinceOrState'')) [] None None)
       = (''NO'', False)
   \<and> snd (stationReducer toggle blank_heap
        (Station ''provinceOrState'' (createToggleMachine ''provinceOrState'') (Some 0) [] ''NO'')
        (Event ''FOCUS'' (Some (One ''provinceOrState'')) [] None None))
      = SameObject"
proof -
  let ?st = "Station ''provinceOrState'' (createToggleMachine ''provinceOrState'') (Some 0) [] ''NO''"
  have s: "service ?st = Some 0" by simp
  have t: "toggle (imachine (blank_heap 0)) (istate (blank_heap 0)) (Event ''TOGGLE'' (Some (One ''provinceOrState'')) [] None None)
       = (''YES'', True)"
    by (simp add: toggle_def blank_heap_def)
  have f: "toggle (imachine (blank_heap 0)) (istate (blank_heap 0)) (Event ''FOCUS'' (Some (One ''provinceOrState'')) [] None None)
       = (''NO'', False)"
    by (simp add: toggle_def blank_heap_def)
  show ?thesis
    using s t f
      live_station_step [where X = toggle and h = blank_heap and st = ?st and r = 0, OF s t]
      live_station_step [where X = toggle and h = blank_heap and st = ?st and r = 0, OF s f]
    by (simp add: blank_heap_def)
qed

text \<open>
  C8. The router never removes an entry: whenever it returns, every identity that was
  registered before is registered after. A registration event (one that carries its
  station) returns the registry with the entry of that station's identity set to the
  station and every other entry as it was.
\<close>

theorem router_keeps_entries:
  "(stationsReducer X (h, stations) event = Inr (h', stations') \<longrightarrow> dom stations \<subseteq> dom stations')
   \<and> (isRegisterEvent event \<and> payload event = Some p \<longrightarrow>
        stationsReducer X (h, stations) event = Inr (h, stations(station_id p \<mapsto> p)))"
proof (intro conjI impI)
  assume run: "stationsReducer X (h, stations) event = Inr (h', stations')"
  have "dom (snd (h, stations)) \<subseteq> dom (snd (h', stations'))"
  proof (rule stationsReducer_rel [where Q = "\<lambda>e. True" and R = "\<lambda>a b. dom (snd a) \<subseteq> dom (snd b)", OF run])
    fix a b k and e :: "'a event"
    assume "deliver X a k e = Inr b"
    then show "dom (snd a) \<subseteq> dom (snd b)" by (rule deliver_dom)
  qed auto
  then show "dom stations \<subseteq> dom stations'" by simp
next
  assume "isRegisterEvent event \<and> payload event = Some p"
  then show "stationsReducer X (h, stations) event = Inr (h, stations(station_id p \<mapsto> p))"
    by (simp add: stationsReducer_register register_not_batched)
qed

theorem router_keeps_entries_witness:
  "isRegisterEvent (registerMachine (newStation (createToggleMachine ''City'')))
   \<and> payload (registerMachine (newStation (createToggleMachine ''City''))) = Some (newStation (createToggleMachine ''City''))
   \<and> stationsReducer toggle (blank_heap, [''Country'' \<mapsto> newStation (createToggleMachine ''Country'')])
        (registerMachine (newStation (createToggleMachine ''City'')))
      = Inr (blank_heap, [''Country'' \<mapsto> newStation (createToggleMachine ''Country''),
                 ''City'' \<mapsto> newStation (createToggleMachine ''City'')])
   \<and> dom [''Country'' \<mapsto> newStation (createToggleMachine ''Country'')]
      \<subseteq> dom [''Country'' \<mapsto> newStation (createToggleMachine ''Country''),
                 ''City'' \<mapsto> newStation (createToggleMachine ''City'')]"
  using router_keeps_entries [of toggle blank_heap "[''Country'' \<mapsto> newStation (createToggleMachine ''Country'')]"
      "registerMachine (newStation (createToggleMachine ''City''))" blank_heap
      "[''Country'' \<mapsto> newStation (createToggleMachine ''Country''), ''City'' \<mapsto> newStation (createToggleMachine ''City'')]"
      "newStation (createToggleMachine ''City'')"]
  by (simp add: registerMachine_def newStation_def createToggleMachine_def isRegisterEvent_def)

section \<open>The lifecycle of a station\<close>

text \<open>
  Draining a station that has a live interpreter in the station's stored state: the
  station ends in the state the interpreter reaches on the queued events.
\<close>

lemma drain_live_station:
  assumes "stations k = Some st" and "service st = Some r" and "eventQueue st \<noteq> []"
    and "\<forall>e\<in>set (eventQueue st). addressed k e"
    and "h r = \<lparr>imachine = m, istate = state st\<rparr>"
    and "unchanged_keeps_state X m"
  shows "drainEffect X (h, stations) k =
           Inr (h(r := feed X \<lparr>imachine = m, istate = state st\<rparr> (eventQueue st)),
                stations(k \<mapsto> Station (station_id st) (machine st) (Some r) []
                   (istate (feed X \<lparr>imachine = m, istate = state st\<rparr> (eventQueue st)))))"
proof -
  let ?st = "Station (station_id st) (machine st) (service st) [] (state st)"
  have "drainEffect X (h, stations) k =
          applyInOrder X (h, stations(k \<mapsto> ?st)) (eventQueue st)"
    using assms(1,3)
    by (simp add: drainEffect_def get_property_own stationsReducer_batched isBatchedEvent_def)
  also have "\<dots> = Inr (h(r := feed X (h r) (eventQueue st)),
        (stations(k \<mapsto> ?st))(k \<mapsto> Station (station_id ?st) (machine ?st) (Some r) (eventQueue ?st)
                                 (istate (feed X (h r) (eventQueue st)))))"
    using assms(2,4,5,6) by (intro live_run) simp_all
  finally show ?thesis
    using assms(5) by simp
qed

text \<open>
  C3. In a state the application reaches, a station with a non-empty queue is
  registered under the identity of the machine \<open>m\<close>, and a component that uses \<open>m\<close>
  mounts. The hook starts an interpreter from the station's stored state (line 216)
  and attaches it, which makes a station with a live interpreter and a non-empty
  queue; the mount is the draining of that station. It returns, the queue is then
  empty, and the state the station stores is the state of a new interpreter of \<open>m\<close>
  that starts from the stored state before the draining and is fed the queued
  events in their order. The interpreter's contract is assumed: an event it reports
  as unchanged leaves it in the state it was in.
\<close>

theorem mount_replays_queue:
  assumes "reachable X (h, stations)" and "stations (machine_id m) = Some st"
    and "eventQueue st \<noteq> []" and "unchanged_keeps_state X m"
  shows "mount X (h, stations) m r =
           drainEffect X
             (useMachine h r m (state st),
              stations(machine_id m \<mapsto>
                Station (station_id st) (machine st) (Some r) (eventQueue st) (state st)))
             (machine_id m)
       \<and> mount X (h, stations) m r =
           Inr (h(r := feed X \<lparr>imachine = m, istate = state st\<rparr> (eventQueue st)),
                stations(machine_id m \<mapsto>
                  Station (station_id st) (machine st) (Some r) []
                    (istate (feed X \<lparr>imachine = m, istate = state st\<rparr> (eventQueue st)))))"
proof -
  let ?k = "machine_id m"
  let ?live = "Station (station_id st) (machine st) (Some r) (eventQueue st) (state st)"
  let ?h = "useMachine h r m (state st)"
  have m: "mount X (h, stations) m r = drainEffect X (?h, stations(?k \<mapsto> ?live)) ?k"
    using assms(2)
    by (simp add: mount_def get_property_own attachAndDrain_def attachEffect_def)
  have q: "\<forall>e\<in>set (eventQueue ?live). addressed ?k e"
    using reachable_queues_addressed [OF assms(1,2)] by simp
  have "drainEffect X (?h, stations(?k \<mapsto> ?live)) ?k =
          Inr (?h(r := feed X \<lparr>imachine = m, istate = state ?live\<rparr> (eventQueue ?live)),
               (stations(?k \<mapsto> ?live))(?k \<mapsto> Station (station_id ?live) (machine ?live) (Some r) []
                  (istate (feed X \<lparr>imachine = m, istate = state ?live\<rparr> (eventQueue ?live)))))"
    using assms(3,4) q
    by (intro drain_live_station) (simp_all add: useMachine_def)
  then have d: "drainEffect X (?h, stations(?k \<mapsto> ?live)) ?k =
          Inr (h(r := feed X \<lparr>imachine = m, istate = state st\<rparr> (eventQueue st)),
               stations(?k \<mapsto> Station (station_id st) (machine st) (Some r) []
                  (istate (feed X \<lparr>imachine = m, istate = state st\<rparr> (eventQueue st)))))"
    by (simp add: useMachine_def)
  from m d show ?thesis
    by simp
qed

text \<open>
  An instance. The toggle of the application is mounted, toggled to \<^verbatim>\<open>YES\<close> and
  unmounted; \<^verbatim>\<open>TOGGLE\<close> and \<^verbatim>\<open>FOCUS\<close> are then queued. The next mount starts from the
  stored \<^verbatim>\<open>YES\<close>, not from the machine's initial \<^verbatim>\<open>NO\<close>, and ends in \<^verbatim>\<open>NO\<close>.
\<close>

theorem mount_replays_queue_witness:
  "reachable toggle
     (blank_heap(0 := \<lparr>imachine = createToggleMachine ''provinceOrState'', istate = ''YES''\<rparr>),
      [''provinceOrState'' \<mapsto>
         Station ''provinceOrState'' (createToggleMachine ''provinceOrState'') None
           [Event ''TOGGLE'' (Some (One ''provinceOrState'')) [] None None,
            Event ''FOCUS'' (Some (One ''provinceOrState'')) [] None None] ''YES''])
   \<and> unchanged_keeps_state toggle (createToggleMachine ''provinceOrState'')
   \<and> initialState (createToggleMachine ''provinceOrState'') = ''NO''
   \<and> feed toggle \<lparr>imachine = createToggleMachine ''provinceOrState'', istate = ''YES''\<rparr>
        [Event ''TOGGLE'' (Some (One ''provinceOrState'')) [] None None,
         Event ''FOCUS'' (Some (One ''provinceOrState'')) [] None None]
      = \<lparr>imachine = createToggleMachine ''provinceOrState'', istate = ''NO''\<rparr>
   \<and> mount toggle
        (blank_heap(0 := \<lparr>imachine = createToggleMachine ''provinceOrState'', istate = ''YES''\<rparr>),
         [''provinceOrState'' \<mapsto>
            Station ''provinceOrState'' (createToggleMachine ''provinceOrState'') None
              [Event ''TOGGLE'' (Some (One ''provinceOrState'')) [] None None,
               Event ''FOCUS'' (Some (One ''provinceOrState'')) [] None None] ''YES''])
        (createToggleMachine ''provinceOrState'') 1
      = Inr (blank_heap(0 := \<lparr>imachine = createToggleMachine ''provinceOrState'', istate = ''YES''\<rparr>,
                        1 := \<lparr>imachine = createToggleMachine ''provinceOrState'', istate = ''NO''\<rparr>),
             [''provinceOrState'' \<mapsto>
                Station ''provinceOrState'' (createToggleMachine ''provinceOrState'') (Some 1) [] ''NO''])"
proof -
  let ?m = "createToggleMachine ''provinceOrState''"
  let ?t = "Event ''TOGGLE'' (Some (One ''provinceOrState'')) [] None None :: string event"
  let ?f = "Event ''FOCUS'' (Some (One ''provinceOrState'')) [] None None :: string event"
  let ?h0 = "blank_heap(0 := \<lparr>imachine = ?m, istate = ''NO''\<rparr>)"
  let ?h1 = "blank_heap(0 := \<lparr>imachine = ?m, istate = ''YES''\<rparr>)"
  let ?w0 = "(blank_heap, Map.empty) :: string heap \<times> string stations"
  let ?w1 = "(?h0, [''provinceOrState'' \<mapsto> Station ''provinceOrState'' ?m (Some 0) [] ''NO''])"
  let ?w2 = "(?h1, [''provinceOrState'' \<mapsto> Station ''provinceOrState'' ?m (Some 0) [] ''YES''])"
  let ?w3 = "(?h1, [''provinceOrState'' \<mapsto> Station ''provinceOrState'' ?m None [] ''YES''])"
  let ?w4 = "(?h1, [''provinceOrState'' \<mapsto> Station ''provinceOrState'' ?m None [?t] ''YES''])"
  let ?st = "Station ''provinceOrState'' ?m None [?t, ?f] ''YES''"
  let ?w5 = "(?h1, [''provinceOrState'' \<mapsto> ?st])"
  have r0: "reachable toggle ?w0" by (rule reachable.start)
  have "mount toggle ?w0 ?m 0 = Inr ?w1"
    by (simp add: mount_def get_property_def object_prototype_keys_def createToggleMachine_def
        stationsReducer_register registerMachine_def newStation_def isBatchedEvent_def
        isRegisterEvent_def attachAndDrain_def attachEffect_def useMachine_def drainEffect_def)
  moreover have "unused 0 (snd ?w0)" by (simp add: unused_def)
  ultimately have r1: "reachable toggle ?w1" using r0 by (blast intro: reachable.mounted)
  have n: "no_registration ?t" "no_registration ?f" by simp_all
  have "stationsReducer toggle ?w1 ?t = Inr ?w2"
    by (simp add: stationsReducer_one isBatchedEvent_def isRegisterEvent_def deliver_def
        get_property_def stationReducer_def send_def interpreter_send_def toggle_def
        createToggleMachine_def)
  with r1 n have r2: "reachable toggle ?w2" by (blast intro: reachable.dispatch)
  have "detachEffect ?w2 ''provinceOrState'' = Inr ?w3"
    by (simp add: detachEffect_def get_property_def)
  with r2 have r3: "reachable toggle ?w3" by (blast intro: reachable.unmounted)
  have "stationsReducer toggle ?w3 ?t = Inr ?w4"
    by (simp add: stationsReducer_one isBatchedEvent_def isRegisterEvent_def deliver_def
        get_property_def stationReducer_def)
  with r3 n have r4: "reachable toggle ?w4" by (blast intro: reachable.dispatch)
  have "stationsReducer toggle ?w4 ?f = Inr ?w5"
    by (simp add: stationsReducer_one isBatchedEvent_def isRegisterEvent_def deliver_def
        get_property_def stationReducer_def)
  with r4 n have r5: "reachable toggle ?w5" by (blast intro: reachable.dispatch)
  have 2: "[''provinceOrState'' \<mapsto> ?st] (machine_id ?m) = Some ?st"
    by (simp add: createToggleMachine_def)
  have 3: "eventQueue ?st \<noteq> []" by simp
  have 4: "unchanged_keeps_state toggle ?m"
    by (simp add: unchanged_keeps_state_def toggle_def)
  have i: "initialState ?m = ''NO''" by (simp add: createToggleMachine_def)
  have f: "feed toggle \<lparr>imachine = ?m, istate = ''YES''\<rparr> [?t, ?f] = \<lparr>imachine = ?m, istate = ''NO''\<rparr>"
    by (simp add: interpreter_send_def toggle_def)
  have "mount toggle ?w5 ?m 1
      = Inr (?h1(1 := \<lparr>imachine = ?m, istate = ''NO''\<rparr>),
             [''provinceOrState'' \<mapsto> Station ''provinceOrState'' ?m (Some 1) [] ''NO''])"
    using mount_replays_queue [where X = toggle and h = ?h1 and stations = "[''provinceOrState'' \<mapsto> ?st]"
        and m = ?m and st = ?st and r = 1, OF r5 2 3 4, THEN conjunct2] f
    by (simp add: createToggleMachine_def)
  with r5 4 i f show ?thesis
    by simp
qed

text \<open>
  C4. In every state the application reaches (the store starts empty; components
  dispatch events that hold no registration, mount, render again and unmount; the
  effects of one render run one after the other, attachment before draining), every
  station with a live interpreter has an empty queue. Equivalently, a non-empty
  queue belongs to a station with no interpreter attached.
\<close>

theorem live_station_has_empty_queue:
  assumes "reachable X (h, stations)" and "stations k = Some st" and "service st \<noteq> None"
  shows "eventQueue st = []"
  using reachable_invariant [OF assms(1)] assms(2,3)
  by (simp add: live_queue_empty_def)

theorem live_station_has_empty_queue_witness:
  "reachable toggle
     (blank_heap(0 := \<lparr>imachine = createToggleMachine ''provinceOrState'', istate = ''NO''\<rparr>,
                 1 := \<lparr>imachine = createToggleMachine ''provinceOrState'', istate = ''YES''\<rparr>),
      [''provinceOrState'' \<mapsto>
         Station ''provinceOrState'' (createToggleMachine ''provinceOrState'') (Some 1) [] ''YES''])
   \<and> [''provinceOrState'' \<mapsto>
         Station ''provinceOrState'' (createToggleMachine ''provinceOrState'') (Some 1) [] ''YES''] ''provinceOrState''
       = Some (Station ''provinceOrState'' (createToggleMachine ''provinceOrState'') (Some 1) [] ''YES'')
   \<and> service (Station ''provinceOrState'' (createToggleMachine ''provinceOrState'') (Some 1) [] (''YES'' :: string)) \<noteq> None
   \<and> eventQueue (Station ''provinceOrState'' (createToggleMachine ''provinceOrState'') (Some 1) [] (''YES'' :: string)) = []"
proof -
  let ?m = "createToggleMachine ''provinceOrState''"
  let ?e = "Event ''TOGGLE'' (Some (One ''provinceOrState'')) [] None None :: string event"
  let ?h1 = "blank_heap(0 := \<lparr>imachine = ?m, istate = ''NO''\<rparr>)"
  let ?w0 = "(blank_heap, Map.empty) :: string heap \<times> string stations"
  let ?w1 = "(?h1, [''provinceOrState'' \<mapsto> Station ''provinceOrState'' ?m (Some 0) [] ''NO''])"
  let ?w2 = "(?h1, [''provinceOrState'' \<mapsto> Station ''provinceOrState'' ?m None [] ''NO''])"
  let ?w3 = "(?h1, [''provinceOrState'' \<mapsto> Station ''provinceOrState'' ?m None [?e] ''NO''])"
  let ?st = "Station ''provinceOrState'' ?m (Some 1) [] ''YES''"
  let ?w4 = "(?h1(1 := \<lparr>imachine = ?m, istate = ''YES''\<rparr>), [''provinceOrState'' \<mapsto> ?st])"
  have r0: "reachable toggle ?w0" by (rule reachable.start)
  have "mount toggle ?w0 ?m 0 = Inr ?w1"
    by (simp add: mount_def get_property_def object_prototype_keys_def createToggleMachine_def
        stationsReducer_register registerMachine_def newStation_def isBatchedEvent_def
        isRegisterEvent_def attachAndDrain_def attachEffect_def useMachine_def drainEffect_def)
  moreover have "unused 0 (snd ?w0)" by (simp add: unused_def)
  ultimately have r1: "reachable toggle ?w1" using r0 by (blast intro: reachable.mounted)
  have "detachEffect ?w1 ''provinceOrState'' = Inr ?w2"
    by (simp add: detachEffect_def get_property_def)
  with r1 have r2: "reachable toggle ?w2" by (blast intro: reachable.unmounted)
  have "stationsReducer toggle ?w2 ?e = Inr ?w3"
    by (simp add: stationsReducer_one isBatchedEvent_def isRegisterEvent_def deliver_def
        get_property_def stationReducer_def)
  moreover have "no_registration ?e" by simp
  ultimately have r3: "reachable toggle ?w3" using r2 by (blast intro: reachable.dispatch)
  have "mount toggle ?w3 ?m 1 = Inr ?w4"
    by (simp add: mount_def get_property_def createToggleMachine_def
        attachAndDrain_def attachEffect_def useMachine_def drainEffect_def
        stationsReducer_batched stationsReducer_one isBatchedEvent_def isRegisterEvent_def
        deliver_def stationReducer_def send_def interpreter_send_def toggle_def)
  moreover have "unused 1 (snd ?w3)" by (simp add: unused_def)
  ultimately have r4: "reachable toggle ?w4" using r3 by (blast intro: reachable.mounted)
  have 1: "[''provinceOrState'' \<mapsto> ?st] ''provinceOrState'' = Some ?st" by simp
  have 2: "service ?st \<noteq> None" by simp
  from live_station_has_empty_queue [OF r4 1 2] r4 show ?thesis
    by simp
qed

section \<open>The send function\<close>

text \<open>
  C9. Through the send function of the component of identity \<open>i\<close>: a type name
  becomes an event of that type with \<open>i\<close> as its target; an event object with no
  target, or with the empty string as its target, gets the target \<open>i\<close> and keeps
  everything else; an event object with any other target is dispatched as it is; an
  array becomes one \<^verbatim>\<open>BATCHED\<close> event whose members are the elements, each normalized
  as it would be alone. So whatever is sent, the router receives an event object
  with a target or a batch of event objects with targets. (An event object is
  stamped whatever its type: the send function does not look into the
  \<^verbatim>\<open>events\<close> of an object that is itself of type \<^verbatim>\<open>BATCHED\<close>.)
\<close>

theorem send_normalizes:
  fixes e :: "'s event" and xs :: "'s sendable list" and sent :: "'s supervised"
  shows "sendToStore i (Single (TypeName t) :: 's supervised) = Event t (Some (One i)) [] None None
   \<and> (to e = None \<or> to e = Some (One []) \<longrightarrow>
        sendToStore i (Single (EventObject e)) = Event (etype e) (Some (One i)) (props e) (events e) (payload e))
   \<and> (to e = Some tg \<and> tg \<noteq> One [] \<longrightarrow> sendToStore i (Single (EventObject e)) = e)
   \<and> sendToStore i (Array xs) = Event ''BATCHED'' None [] (Some (map (\<lambda>x. sendToStore i (Single x)) xs)) None
   \<and> uniformly_shaped (sendToStore i sent)"
proof (intro conjI impI)
  show "sendToStore i (Single (TypeName t) :: 's supervised) = Event t (Some (One i)) [] None None"
    by (simp add: sendToStore_def dispatchableEvent_def)
  show "sendToStore i (Array xs) = Event ''BATCHED'' None [] (Some (map (\<lambda>x. sendToStore i (Single x)) xs)) None"
    by (simp add: sendToStore_def)
  have target: "isAnyDispatchedEvent (dispatchableEvent i x)" for x :: "'s sendable"
    by (cases x) (simp_all add: dispatchableEvent_def isAnyDispatchedEvent_def)
  show "uniformly_shaped (sendToStore i sent)"
  proof (cases sent)
    case (Single x)
    then show ?thesis
      using target [of x] by (simp add: sendToStore_def uniformly_shaped_def)
  next
    case (Array ys)
    then show ?thesis
      using target by (simp add: sendToStore_def uniformly_shaped_def list_all_iff)
  qed
next
  assume "to e = None \<or> to e = Some (One [])"
  then show "sendToStore i (Single (EventObject e)) = Event (etype e) (Some (One i)) (props e) (events e) (payload e)"
    by (auto simp: sendToStore_def dispatchableEvent_def to_or_def)
next
  assume "to e = Some tg \<and> tg \<noteq> One []"
  then show "sendToStore i (Single (EventObject e)) = e"
    by (cases e; cases tg) (auto simp: sendToStore_def dispatchableEvent_def to_or_def)
qed

text \<open>
  An instance: what the input of \<^verbatim>\<open>Country\<close> sends (lines 350 and 394 to 400, the
  first event with no target, the second with three), a type name, and a single
  event object with no target.
\<close>

theorem send_normalizes_witness:
  "sendToStore ''Country'' (Single (TypeName ''FOCUS'') :: string supervised)
     = Event ''FOCUS'' (Some (One ''Country'')) [] None None
   \<and> to (Event ''CHANGE'' None [(''value'', ''Peru'')] None None :: string event) = None
   \<and> sendToStore ''Country'' (Single (EventObject (Event ''CHANGE'' None [(''value'', ''Peru'')] None None)) :: string supervised)
     = Event ''CHANGE'' (Some (One ''Country'')) [(''value'', ''Peru'')] None None
   \<and> to (Event ''CHANGE'' (Some (Many [''State'', ''Province'', ''City''])) [(''value'', [])] None None :: string event)
     = Some (Many [''State'', ''Province'', ''City''])
   \<and> Many [''State'', ''Province'', ''City''] \<noteq> One []
   \<and> sendToStore ''Country''
        (Single (EventObject (Event ''CHANGE'' (Some (Many [''State'', ''Province'', ''City''])) [(''value'', [])] None None)) :: string supervised)
     = Event ''CHANGE'' (Some (Many [''State'', ''Province'', ''City''])) [(''value'', [])] None None
   \<and> sendToStore ''Country''
        (Array [EventObject (Event ''CHANGE'' None [(''value'', ''Peru'')] None None),
                EventObject (Event ''CHANGE'' (Some (Many [''State'', ''Province'', ''City''])) [(''value'', [])] None None)]
           :: string supervised)
     = Event ''BATCHED'' None []
         (Some [Event ''CHANGE'' (Some (One ''Country'')) [(''value'', ''Peru'')] None None,
                Event ''CHANGE'' (Some (Many [''State'', ''Province'', ''City''])) [(''value'', [])] None None])
         None
   \<and> uniformly_shaped
        (Event ''BATCHED'' None []
           (Some [Event ''CHANGE'' (Some (One ''Country'')) [(''value'', ''Peru'')] None None,
                  Event ''CHANGE'' (Some (Many [''State'', ''Province'', ''City''])) [(''value'', [])] None None])
           None :: string event)"
proof -
  let ?a = "Event ''CHANGE'' None [(''value'', ''Peru'')] None None :: string event"
  let ?b = "Event ''CHANGE'' (Some (Many [''State'', ''Province'', ''City''])) [(''value'', [])] None None :: string event"
  let ?xs = "[EventObject ?a, EventObject ?b] :: string sendable list"
  have 1: "to ?a = None \<or> to ?a = Some (One [])" by simp
  have 2: "to ?b = Some (Many [''State'', ''Province'', ''City'']) \<and> Many [''State'', ''Province'', ''City''] \<noteq> One []"
    by simp
  have a: "sendToStore ''Country'' (Single (EventObject ?a)) = Event (etype ?a) (Some (One ''Country'')) (props ?a) (events ?a) (payload ?a)"
    using 1 send_normalizes [where i = "''Country''" and e = ?a] by blast
  have b: "sendToStore ''Country'' (Single (EventObject ?b)) = ?b"
    using 2 send_normalizes [where i = "''Country''" and e = ?b and tg = "Many [''State'', ''Province'', ''City'']"] by blast
  have f: "sendToStore ''Country'' (Single (TypeName ''FOCUS'') :: string supervised)
     = Event ''FOCUS'' (Some (One ''Country'')) [] None None"
    using send_normalizes [where 's = string and i = "''Country''" and t = "''FOCUS''"] by blast
  have "sendToStore ''Country'' (Array ?xs)
      = Event ''BATCHED'' None [] (Some (map (\<lambda>x. sendToStore ''Country'' (Single x)) ?xs)) None"
    using send_normalizes [where i = "''Country''" and xs = ?xs] by blast
  with a b have x: "sendToStore ''Country'' (Array ?xs)
      = Event ''BATCHED'' None [] (Some [Event ''CHANGE'' (Some (One ''Country'')) [(''value'', ''Peru'')] None None, ?b]) None"
    by simp
  have "uniformly_shaped (sendToStore ''Country'' (Array ?xs))"
    using send_normalizes [where i = "''Country''" and sent = "Array ?xs"] by blast
  with x have u: "uniformly_shaped
      (Event ''BATCHED'' None [] (Some [Event ''CHANGE'' (Some (One ''Country'')) [(''value'', ''Peru'')] None None, ?b]) None)"
    by simp
  from a b f x u show ?thesis
    by simp
qed

text \<open>
  An existing target is thus not always preserved: \<^verbatim>\<open>event.to || id\<close> replaces the
  empty string by the identity of the component.
\<close>

theorem send_normalizes_counterexample:
  "to (Event ''CHANGE'' (Some (One [])) [] None None :: string event) = Some (One [])
   \<and> to (sendToStore ''City'' (Single (EventObject (Event ''CHANGE'' (Some (One [])) [] None None))) :: string event)
       = Some (One ''City'')
   \<and> to (sendToStore ''City'' (Single (EventObject (Event ''CHANGE'' (Some (One [])) [] None None))) :: string event)
       \<noteq> to (Event ''CHANGE'' (Some (One [])) [] None None :: string event)"
  by (simp add: sendToStore_def dispatchableEvent_def to_or_def)

section \<open>Events without a target\<close>

text \<open>
  C10. An event that is neither a batch nor a registration and has no
  \<^verbatim>\<open>to\<close> is looked up under the property key \<^verbatim>\<open>undefined\<close>, which JavaScript makes
  of the missing value: the router treats it as an event for the station registered
  under that name. It returns the registry unchanged whenever no station is
  registered under the identity \<^verbatim>\<open>undefined\<close>.
\<close>

theorem absent_target:
  assumes "\<not> isBatchedEvent event" and "\<not> isRegisterEvent event" and "to event = None"
  shows "stationsReducer X (h, stations) event = deliver X (h, stations) ''undefined'' event
       \<and> (stations ''undefined'' = None \<longrightarrow> stationsReducer X (h, stations) event = Inr (h, stations))"
  using assms
  by (simp add: stationsReducer_none deliver_def get_property_def object_prototype_keys_def)

theorem absent_target_witness:
  "\<not> isBatchedEvent (Event ''INIT'' None [] None None :: string event)
   \<and> \<not> isRegisterEvent (Event ''INIT'' None [] None None :: string event)
   \<and> to (Event ''INIT'' None [] None None :: string event) = None
   \<and> [''City'' \<mapsto> newStation (createToggleMachine ''City'')] ''undefined'' = None
   \<and> stationsReducer toggle (blank_heap, [''City'' \<mapsto> newStation (createToggleMachine ''City'')])
        (Event ''INIT'' None [] None None)
      = Inr (blank_heap, [''City'' \<mapsto> newStation (createToggleMachine ''City'')])"
proof -
  let ?e = "Event ''INIT'' None [] None None :: string event"
  have 1: "\<not> isBatchedEvent ?e" by (simp add: isBatchedEvent_def)
  have 2: "\<not> isRegisterEvent ?e" by (simp add: isRegisterEvent_def)
  have 3: "to ?e = None" by simp
  have 4: "[''City'' \<mapsto> newStation (createToggleMachine ''City'')] ''undefined'' = None" by simp
  have "stationsReducer toggle (blank_heap, [''City'' \<mapsto> newStation (createToggleMachine ''City'')]) ?e
      = Inr (blank_heap, [''City'' \<mapsto> newStation (createToggleMachine ''City'')])"
    using 4 absent_target [OF 1 2 3, of toggle blank_heap "[''City'' \<mapsto> newStation (createToggleMachine ''City'')]"]
    by blast
  with 1 2 3 4 show ?thesis
    by simp
qed

text \<open>
  Such an event is thus not always dropped: when a station is registered under the
  identity \<^verbatim>\<open>undefined\<close>, the event is queued there.
\<close>

theorem absent_target_counterexample:
  "\<not> isBatchedEvent (Event ''INIT'' None [] None None :: string event)
   \<and> \<not> isRegisterEvent (Event ''INIT'' None [] None None :: string event)
   \<and> to (Event ''INIT'' None [] None None :: string event) = None
   \<and> stationsReducer toggle (blank_heap, [''undefined'' \<mapsto> newStation (createToggleMachine ''undefined'')])
        (Event ''INIT'' None [] None None)
      = Inr (blank_heap, [''undefined'' \<mapsto> Station ''undefined'' (createToggleMachine ''undefined'') None
                [Event ''INIT'' None [] None None] ''NO''])
   \<and> stationsReducer toggle (blank_heap, [''undefined'' \<mapsto> newStation (createToggleMachine ''undefined'')])
        (Event ''INIT'' None [] None None)
      \<noteq> Inr (blank_heap, [''undefined'' \<mapsto> newStation (createToggleMachine ''undefined'')])"
proof -
  let ?e = "Event ''INIT'' None [] None None :: string event"
  let ?w = "(blank_heap, [''undefined'' \<mapsto> newStation (createToggleMachine ''undefined'')])"
  have run: "stationsReducer toggle ?w ?e
      = Inr (blank_heap, [''undefined'' \<mapsto> Station ''undefined'' (createToggleMachine ''undefined'') None [?e] ''NO''])"
    by (simp add: stationsReducer_none isBatchedEvent_def isRegisterEvent_def deliver_def
        get_property_def stationReducer_def newStation_def createToggleMachine_def)
  have "[''undefined'' \<mapsto> Station ''undefined'' (createToggleMachine ''undefined'') None [?e] ''NO'']
        \<noteq> [''undefined'' \<mapsto> newStation (createToggleMachine ''undefined'')]"
    by (auto simp: newStation_def dest!: map_upd_eqD1)
  with run show ?thesis
    by (simp add: isBatchedEvent_def isRegisterEvent_def)
qed

end
